theory Spec2Isabelle
  imports Main "HOL-Library.Char_ord" "HOL-Library.List_Lexorder"
begin

section \<open>JavaScript values and errors\<close>

text \<open>
  Header names and values are ByteStrings: JavaScript strings whose code units are all
  below 256, modelled as \<open>string\<close> (a list of 8-bit characters). A slot of the backing
  array, or the result of a property read, is either such a string or \<open>undefined\<close>.
\<close>

datatype jsval = JString string | JUndefined

text \<open>
  The exceptions of the two modules. \<open>TypeError\<close> carries its message;
  \<open>InvalidArgument\<close> is what \<open>webidl.errors.invalidArgument\<close> raises, with
  the prefix, the offending value and the kind of argument; \<open>AssertionError\<close> is a
  failed \<open>assert\<close>.
\<close>

datatype error =
    TypeError string
  | InvalidArgument string string string
  | AssertionError

text \<open>
  A method that mutates its object returns the error it threw, if any, together with the
  object as the call left it: a throw does not undo the mutations made before it.
\<close>

type_synonym 'st effect = "error option \<times> 'st"

text \<open>String concatenation \<open>s + v\<close> converts \<open>undefined\<close> to the text \<open>undefined\<close>.\<close>

fun ToString :: "jsval \<Rightarrow> string" where
  "ToString (JString s) = s"
| "ToString JUndefined = ''undefined''"

text \<open>
  \<open>String.prototype.toLowerCase\<close> on code units below 256: the ASCII capitals and the
  Latin-1 capitals (0xC0 to 0xDE, without the multiplication sign 0xD7) move up by 32.
\<close>

definition toLowerCase_char :: "char \<Rightarrow> char" where
  "toLowerCase_char c =
     (let n = (of_char c :: nat)
      in if (65 \<le> n \<and> n \<le> 90) \<or> (192 \<le> n \<and> n \<le> 214) \<or> (216 \<le> n \<and> n \<le> 222)
         then char_of (n + 32) else c)"

definition toLowerCase :: "string \<Rightarrow> string" where
  "toLowerCase s = map toLowerCase_char s"

text \<open>The message of the TypeError raised by a method call on \<open>undefined\<close>.\<close>

definition undefined_read :: "string \<Rightarrow> error" where
  "undefined_read prop =
     TypeError (''Cannot read properties of undefined (reading '' @ prop @ '')'')"

section \<open>HeadersList\<close>

text \<open>
  \<open>class HeadersList\<close> has the single field \<open>backer\<close>, a flat array
  \<open>[name0, value0, name1, value1, ...]\<close>.
\<close>

record HeadersList =
  backer :: "jsval list"

text \<open>
  \<open>constructor (init)\<close>: a copy of \<open>init\<close> when one is given, the empty array otherwise.
\<close>

definition HeadersList_new :: "jsval list option \<Rightarrow> HeadersList" where
  "HeadersList_new init =
     (case init of Some xs \<Rightarrow> \<lparr>backer = xs\<rparr> | None \<Rightarrow> \<lparr>backer = []\<rparr>)"

text \<open>
  \<open>this[i]\<close> inside a method of HeadersList. The class does not extend \<open>Array\<close> and
  neither its constructor nor any of its methods defines an indexed property (the entries
  live in \<open>this.backer\<close>), so the property read finds nothing on the object or on its
  prototype chain and yields \<open>undefined\<close>.
\<close>

definition this_at :: "HeadersList \<Rightarrow> nat \<Rightarrow> jsval" where
  "this_at h i = JUndefined"

text \<open>
  The loop of \<open>contains\<close>: \<open>for (let i = startingIndex; i < this.backer.length; i += 2)\<close>,
  run on the part of the array from index \<open>i\<close> on. \<open>this.backer[i].toLowerCase()\<close> throws
  when the slot holds \<open>undefined\<close>.
\<close>

fun contains_loop :: "string \<Rightarrow> jsval list \<Rightarrow> nat \<Rightarrow> error + int" where
  "contains_loop name [] i = Inr (- 1)"
| "contains_loop name (k # rest) i =
     (case k of
        JUndefined \<Rightarrow> Inl (undefined_read ''toLowerCase'')
      | JString key \<Rightarrow>
          if toLowerCase key = name then Inr (int i)
          else contains_loop name (drop 1 rest) (i + 2))"

definition HeadersList_contains :: "HeadersList \<Rightarrow> string \<Rightarrow> nat \<Rightarrow> error + int" where
  "HeadersList_contains h name startingIndex =
     (if startingIndex > length (backer h) then Inr (- 1)
      else contains_loop (toLowerCase name) (drop startingIndex (backer h)) startingIndex)"

definition HeadersList_clear :: "HeadersList \<Rightarrow> HeadersList" where
  "HeadersList_clear h = h\<lparr>backer := []\<rparr>"

text \<open>
  \<open>append (name, value)\<close>: when \<open>contains\<close> finds the name, \<open>name = this[idx]\<close>; then
  \<open>this.backer.push(name, value)\<close>.
\<close>

definition HeadersList_append :: "HeadersList \<Rightarrow> string \<Rightarrow> string \<Rightarrow> HeadersList effect" where
  "HeadersList_append h name val =
     (case HeadersList_contains h name 0 of
        Inl e \<Rightarrow> (Some e, h)
      | Inr idx \<Rightarrow>
          let name' = (if idx \<noteq> - 1 then this_at h (nat idx) else JString name)
          in (None, h\<lparr>backer := backer h @ [name', JString val]\<rparr>))"

text \<open>\<open>this.backer.splice(index, 2)\<close>: removes the (at most two) entries from \<open>index\<close> on.\<close>

definition splice2 :: "jsval list \<Rightarrow> nat \<Rightarrow> jsval list" where
  "splice2 xs index = take index xs @ drop (index + 2) xs"

text \<open>
  \<open>delete (name)\<close>: \<open>let index = this.contains(name)\<close>, then while \<open>index !== -1\<close> the
  pair at \<open>index\<close> is spliced out and \<open>index = this.contains(name, index)\<close>.
  \<open>HeadersList_delete_from h name start\<close> is the loop from the lookup that starts at
  \<open>start\<close>.
\<close>

function HeadersList_delete_from :: "HeadersList \<Rightarrow> string \<Rightarrow> nat \<Rightarrow> HeadersList effect" where
  "HeadersList_delete_from h name start =
     (case HeadersList_contains h name start of
        Inl e \<Rightarrow> (Some e, h)
      | Inr index \<Rightarrow>
          if index \<noteq> - 1
          then HeadersList_delete_from (h\<lparr>backer := splice2 (backer h) (nat index)\<rparr>) name (nat index)
          else (None, h))"
  by pat_completeness auto

lemma contains_loop_range:
  "contains_loop name xs i = Inr r \<Longrightarrow> r \<noteq> - 1 \<Longrightarrow> int i \<le> r \<and> r < int i + int (length xs)"
proof (induction name xs i rule: contains_loop.induct)
  case (1 name i)
  then show ?case by simp
next
  case (2 name k rest i)
  show ?case
  proof (cases k)
    case JUndefined
    with 2 show ?thesis by simp
  next
    case (JString key)
    show ?thesis
    proof (cases "toLowerCase key = name")
      case True
      with 2 JString show ?thesis by simp
    next
      case False
      with 2 JString have "contains_loop name (drop 1 rest) (i + 2) = Inr r" by simp
      with 2 JString False
      have "int (i + 2) \<le> r \<and> r < int (i + 2) + int (length (drop 1 rest))" by simp
      then show ?thesis by auto
    qed
  qed
qed

lemma contains_range:
  assumes "HeadersList_contains h name start = Inr r" and "r \<noteq> - 1"
  shows "int start \<le> r \<and> r < int (length (backer h))"
proof -
  from assms have le: "start \<le> length (backer h)"
    by (auto simp: HeadersList_contains_def split: if_splits)
  with assms have "contains_loop (toLowerCase name) (drop start (backer h)) start = Inr r"
    by (simp add: HeadersList_contains_def)
  from contains_loop_range [OF this assms(2)] le show ?thesis by auto
qed

termination HeadersList_delete_from
proof (relation "measure (\<lambda>(h, name, start). length (backer h))")
  show "wf (measure (\<lambda>(h, name, start). length (backer h)))" by simp
next
  fix h :: HeadersList and name :: string and start :: nat and index :: int
  assume c: "HeadersList_contains h name start = Inr index" and n: "index \<noteq> - 1"
  from contains_range [OF c n] have "nat index < length (backer h)" by auto
  then show "((h\<lparr>backer := splice2 (backer h) (nat index)\<rparr>, name, nat index), (h, name, start))
      \<in> measure (\<lambda>(h, name, start). length (backer h))"
    by (simp add: splice2_def)
qed

declare HeadersList_delete_from.simps [simp del]

definition HeadersList_delete :: "HeadersList \<Rightarrow> string \<Rightarrow> HeadersList effect" where
  "HeadersList_delete h name = HeadersList_delete_from h name 0"

text \<open>
  \<open>set (name, value)\<close>: \<open>this.delete(name)\<close>, then \<open>this.append(name, value)\<close>; a throw of
  the delete ends the call.
\<close>

definition HeadersList_set :: "HeadersList \<Rightarrow> string \<Rightarrow> string \<Rightarrow> HeadersList effect" where
  "HeadersList_set h name val =
     (case HeadersList_delete h name of
        (Some e, h') \<Rightarrow> (Some e, h')
      | (None, h') \<Rightarrow> HeadersList_append h' name val)"

text \<open>
  The loop of \<open>get\<close>, entered with \<open>index\<close> a found index: the value is read as
  \<open>this[index + 1]\<close> and added to \<open>list\<close>, behind \<open>', '\<close> unless \<open>list\<close> is still empty; the
  next lookup starts at \<open>index + 2\<close>.
\<close>

function get_loop :: "HeadersList \<Rightarrow> string \<Rightarrow> nat \<Rightarrow> string \<Rightarrow> error + string" where
  "get_loop h name index list =
     (let list' = (if length list = 0 then list @ ToString (this_at h (index + 1))
                   else list @ '', '' @ ToString (this_at h (index + 1)))
      in case HeadersList_contains h name (index + 2) of
           Inl e \<Rightarrow> Inl e
         | Inr index' \<Rightarrow>
             if index' \<noteq> - 1 then get_loop h name (nat index') list' else Inr list')"
  by pat_completeness auto
termination
proof (relation "measure (\<lambda>(h, name, index, list). length (backer h) - index)")
  show "wf (measure (\<lambda>(h, name, index, list). length (backer h) - index))" by simp
next
  fix h :: HeadersList and name :: string and index :: nat and list list' :: string
    and index' :: int
  assume c: "HeadersList_contains h name (index + 2) = Inr index'" and n: "index' \<noteq> - 1"
  from contains_range [OF c n]
  show "((h, name, nat index', list'), (h, name, index, list))
      \<in> measure (\<lambda>(h, name, index, list). length (backer h) - index)"
    by auto
qed

declare get_loop.simps [simp del]

text \<open>\<open>get (name)\<close>: \<open>None\<close> is JavaScript's \<open>null\<close>.\<close>

definition HeadersList_get :: "HeadersList \<Rightarrow> string \<Rightarrow> error + string option" where
  "HeadersList_get h name =
     (case HeadersList_contains h name 0 of
        Inl e \<Rightarrow> Inl e
      | Inr index \<Rightarrow>
          if index = - 1 then Inr None
          else (case get_loop h name (nat index) [] of
                  Inl e \<Rightarrow> Inl e
                | Inr list \<Rightarrow> Inr (Some list)))"

definition HeadersList_has :: "HeadersList \<Rightarrow> string \<Rightarrow> error + bool" where
  "HeadersList_has h name =
     (case HeadersList_contains h name 0 of
        Inl e \<Rightarrow> Inl e
      | Inr index \<Rightarrow> Inr (index \<noteq> - 1))"

text \<open>
  The object \<open>headers\<close> of \<open>sortAndCombine\<close>, as the list of its entries in insertion
  order: \<open>Object.hasOwn\<close>, \<open>headers[key] = value\<close> and \<open>headers[key] += ', ' + value\<close>.
\<close>

definition hasOwn :: "(string \<times> jsval) list \<Rightarrow> string \<Rightarrow> bool" where
  "hasOwn headers key = (key \<in> fst ` set headers)"

definition assign :: "(string \<times> jsval) list \<Rightarrow> string \<Rightarrow> jsval \<Rightarrow> (string \<times> jsval) list" where
  "assign headers key v =
     (if hasOwn headers key then map (\<lambda>(k, w). if k = key then (k, v) else (k, w)) headers
      else headers @ [(key, v)])"

definition add_assign :: "(string \<times> jsval) list \<Rightarrow> string \<Rightarrow> string \<Rightarrow> (string \<times> jsval) list" where
  "add_assign headers key s =
     map (\<lambda>(k, w). if k = key then (k, JString (ToString w @ s)) else (k, w)) headers"

text \<open>
  The loop of \<open>sortAndCombine\<close>: \<open>for (let i = 0; i < this.backer.length; i += 2)\<close> with
  \<open>key = this[i].toLowerCase()\<close> and \<open>value = this[i + 1]\<close>.
\<close>

function sortAndCombine_loop ::
  "HeadersList \<Rightarrow> nat \<Rightarrow> (string \<times> jsval) list \<Rightarrow> error + (string \<times> jsval) list" where
  "sortAndCombine_loop h i headers =
     (if i < length (backer h)
      then (case this_at h i of
              JUndefined \<Rightarrow> Inl (undefined_read ''toLowerCase'')
            | JString s \<Rightarrow>
                let key = toLowerCase s; v = this_at h (i + 1)
                in sortAndCombine_loop h (i + 2)
                     (if i \<noteq> 0 \<and> hasOwn headers key
                      then add_assign headers key ('', '' @ ToString v)
                      else assign headers key v))
      else Inr headers)"
  by pat_completeness auto
termination
  by (relation "measure (\<lambda>(h, i, headers). length (backer h) - i)") auto

declare sortAndCombine_loop.simps [simp del]

text \<open>
  \<open>sortAndCombine ()\<close>: the entries of \<open>headers\<close>, sorted by key with the comparator of the
  source (code-unit order, which on ByteStrings is the lexicographic order of the
  characters; the sort is stable). The object is local: the list itself is not written.
\<close>

definition HeadersList_sortAndCombine :: "HeadersList \<Rightarrow> (error + (string \<times> jsval) list) \<times> HeadersList" where
  "HeadersList_sortAndCombine h =
     (case sortAndCombine_loop h 0 [] of
        Inl e \<Rightarrow> (Inl e, h)
      | Inr headers \<Rightarrow> (Inr (sort_key fst headers), h))"

section \<open>Headers\<close>

text \<open>
  \<open>class Headers\<close>: the header list \<open>this[kHeadersList]\<close> and the guard \<open>this[kGuard]\<close>, a
  string (\<open>'none'\<close>, \<open>'immutable'\<close>, \<open>'request'\<close>, \<open>'request-no-cors'\<close>, \<open>'response'\<close>).
\<close>

record Headers =
  kHeadersList :: HeadersList
  kGuard :: string

text \<open>
  \<open>headerValueNormalize\<close>: \<open>potentialValue.replace(/^[\r\n\t ]+|[\r\n\t ]+$/g, '')\<close> removes
  the leading and the trailing run of CR, LF, TAB and SPACE.
\<close>

definition isHTTPWhitespace :: "char \<Rightarrow> bool" where
  "isHTTPWhitespace c = (c = CHR 0x0D \<or> c = CHR 0x0A \<or> c = CHR 0x09 \<or> c = CHR 0x20)"

definition headerValueNormalize :: "string \<Rightarrow> string" where
  "headerValueNormalize potentialValue =
     rev (dropWhile isHTTPWhitespace (rev (dropWhile isHTTPWhitespace potentialValue)))"

text \<open>
  Modelled from the spec: \<open>webidl.errors.invalidArgument\<close> (module \<open>../fetch/webidl\<close>, not
  among the sources) raises the \<open>InvalidArgument\<close> error for the given prefix, value and
  kind of argument; it never returns.
\<close>

definition invalidArgument :: "string \<Rightarrow> string \<Rightarrow> string \<Rightarrow> error" where
  "invalidArgument prefix v type = InvalidArgument prefix v type"

text \<open>
  The methods of \<open>Headers\<close>. The predicates \<open>isValidHeaderName\<close> and \<open>isValidHeaderValue\<close>
  come from \<open>./util\<close>, which is not among the sources: they are parameters. The receiver
  is a \<open>Headers\<close>, both arguments are present and they are ByteStrings already, so the
  \<open>instanceof\<close> and \<open>arguments.length\<close> checks pass and \<open>webidl.converters.ByteString\<close>
  returns its argument. The branch for the guard \<open>'request-no-cors'\<close> is empty in the source.
\<close>

definition Headers_append ::
  "(string \<Rightarrow> bool) \<Rightarrow> (string \<Rightarrow> bool) \<Rightarrow> Headers \<Rightarrow> string \<Rightarrow> string \<Rightarrow> Headers effect" where
  "Headers_append isValidHeaderName isValidHeaderValue this name val =
     (let v = headerValueNormalize val
      in if \<not> isValidHeaderName name
         then (Some (invalidArgument ''Headers.append'' name ''header name''), this)
         else if \<not> isValidHeaderValue v
         then (Some (invalidArgument ''Headers.append'' v ''header value''), this)
         else if kGuard this = ''immutable''
         then (Some (TypeError ''immutable''), this)
         else (case HeadersList_append (kHeadersList this) name v of
                 (thrown, l) \<Rightarrow> (thrown, this\<lparr>kHeadersList := l\<rparr>)))"

definition Headers_delete ::
  "(string \<Rightarrow> bool) \<Rightarrow> Headers \<Rightarrow> string \<Rightarrow> Headers effect" where
  "Headers_delete isValidHeaderName this name =
     (if \<not> isValidHeaderName name
      then (Some (invalidArgument ''Headers.delete'' name ''header name''), this)
      else if kGuard this = ''immutable''
      then (Some (TypeError ''immutable''), this)
      else (case HeadersList_has (kHeadersList this) name of
              Inl e \<Rightarrow> (Some e, this)
            | Inr found \<Rightarrow>
                if \<not> found then (None, this)
                else (case HeadersList_delete (kHeadersList this) name of
                        (thrown, l) \<Rightarrow> (thrown, this\<lparr>kHeadersList := l\<rparr>))))"

definition Headers_set ::
  "(string \<Rightarrow> bool) \<Rightarrow> (string \<Rightarrow> bool) \<Rightarrow> Headers \<Rightarrow> string \<Rightarrow> string \<Rightarrow> Headers effect" where
  "Headers_set isValidHeaderName isValidHeaderValue this name val =
     (let v = headerValueNormalize val
      in if \<not> isValidHeaderName name
         then (Some (invalidArgument ''Headers.set'' name ''header name''), this)
         else if \<not> isValidHeaderValue v
         then (Some (invalidArgument ''Headers.set'' v ''header value''), this)
         else if kGuard this = ''immutable''
         then (Some (TypeError ''immutable''), this)
         else (case HeadersList_set (kHeadersList this) name v of
                 (thrown, l) \<Rightarrow> (thrown, this\<lparr>kHeadersList := l\<rparr>)))"

text \<open>
  The layout of the backing array: it splits into pairs of a header name, a string at an
  even index, and right behind it the name's value, a string at the following odd index.
\<close>

fun paired :: "jsval list \<Rightarrow> bool" where
  "paired [] = True"
| "paired [n] = False"
| "paired (n # v # rest) = (n \<noteq> JUndefined \<and> v \<noteq> JUndefined \<and> paired rest)"

text \<open>
  Every name slot holds a string; and the list without the pairs whose name, lower-cased,
  is \<open>name\<close>.
\<close>

fun names_defined :: "jsval list \<Rightarrow> bool" where
  "names_defined [] = True"
| "names_defined [n] = (n \<noteq> JUndefined)"
| "names_defined (n # v # rest) = (n \<noteq> JUndefined \<and> names_defined rest)"

fun without_name :: "string \<Rightarrow> jsval list \<Rightarrow> jsval list" where
  "without_name name [] = []"
| "without_name name [n] = (if n = JUndefined \<or> toLowerCase (ToString n) \<noteq> name then [n] else [])"
| "without_name name (n # v # rest) =
     (if n = JUndefined \<or> toLowerCase (ToString n) \<noteq> name then n # v # without_name name rest
      else without_name name rest)"

section \<open>FormDataParser\<close>

text \<open>A \<open>Buffer\<close> is a sequence of bytes.\<close>

type_synonym buffer = string

text \<open>\<open>constants.js\<close>: the parser states and the line terminator.\<close>

datatype ParserState = Beginning | Headers | Body | Boundary

definition CRLF :: buffer where
  "CRLF = [CHR 0x0D, CHR 0x0A]"

text \<open>
  \<open>buf.indexOf(value, byteOffset)\<close>: the index of the first occurrence of \<open>value\<close> at or
  after \<open>byteOffset\<close>, or \<open>-1\<close>. \<open>indexOf_loop value xs i\<close> searches \<open>xs\<close>, the part of the
  buffer from index \<open>i\<close> on.
\<close>

fun indexOf_loop :: "buffer \<Rightarrow> buffer \<Rightarrow> nat \<Rightarrow> int" where
  "indexOf_loop v [] i = (if v = [] then int i else - 1)"
| "indexOf_loop v (x # xs) i =
     (if take (length v) (x # xs) = v then int i else indexOf_loop v xs (i + 1))"

definition indexOf :: "buffer \<Rightarrow> buffer \<Rightarrow> nat \<Rightarrow> int" where
  "indexOf buf v byteOffset =
     indexOf_loop v (drop byteOffset buf) (min byteOffset (length buf))"

definition buf_includes :: "buffer \<Rightarrow> buffer \<Rightarrow> bool" where
  "buf_includes buf v = (indexOf buf v 0 \<noteq> - 1)"

text \<open>
  \<open>buf.subarray(start, end)\<close> and \<open>buf.slice(start, end)\<close>: a negative index counts
  from the end of the buffer, and every index is clamped to the buffer.
\<close>

definition relative_index :: "int \<Rightarrow> nat \<Rightarrow> nat" where
  "relative_index i len = (if i < 0 then nat (max (int len + i) 0) else min (nat i) len)"

definition subarray :: "buffer \<Rightarrow> int \<Rightarrow> int \<Rightarrow> buffer" where
  "subarray buf start end' =
     (let s = relative_index start (length buf); e = relative_index end' (length buf)
      in take (e - s) (drop s buf))"

text \<open>\<open>util.js\<close>, \<open>combineChunks\<close>.\<close>

definition combineChunks :: "buffer list \<Rightarrow> buffer" where
  "combineChunks chunks = (if length chunks = 1 then chunks ! 0 else concat chunks)"

text \<open>
  The result of \<open>parseMIMEType\<close> (module \<open>../fetch/dataURL\<close>, not among the sources) when
  it is not \<open>'failure'\<close>.
\<close>

record MIMEType =
  mime_type :: string
  mime_subtype :: string
  mime_parameters :: "string \<rightharpoonup> string"

text \<open>What the parser emits: the event's name with its payload.\<close>

datatype event = boundary_event buffer | header_event buffer | body_event buffer

text \<open>
  The private fields of \<open>FormDataParser\<close>, and \<open>emitted\<close>, the events emitted so far,
  oldest first. \<open>lastBytes = None\<close> is the field being \<open>undefined\<close>.
\<close>

record FormDataParser =
  mimeType :: MIMEType
  state :: ParserState
  currentChunk :: "buffer list"
  nextChunk :: "buffer list"
  boundary :: buffer
  lastBytes :: "buffer option"
  emitted :: "event list"

definition emit :: "event \<Rightarrow> FormDataParser \<Rightarrow> FormDataParser" where
  "emit ev this = this\<lparr>emitted := emitted this @ [ev]\<rparr>"

text \<open>
  \<open>Buffer.from(string)\<close> encodes the string in UTF-8: a code unit below 0x80 is one
  byte, a code unit from 0x80 to 0xFF (the others of a ByteString) is two bytes.
\<close>

definition utf8_bytes :: "char \<Rightarrow> buffer" where
  "utf8_bytes c =
     (let n = (of_char c :: nat)
      in if n < 128 then [c] else [char_of (192 + n div 64), char_of (128 + n mod 64)])"

definition Buffer_from :: "string \<Rightarrow> buffer" where
  "Buffer_from s = concat (map utf8_bytes s)"

lemma Buffer_from_dashes_X: "Buffer_from ''--X'' = ''--X''"
  by code_simp

lemma Buffer_from_e_acute: "Buffer_from [CHR 0xE9] = [CHR 0xC3, CHR 0xA9]"
  by code_simp

text \<open>
  \<open>constructor (header)\<close>. \<open>parseMIMEType\<close> is a parameter (\<open>None\<close> is its result
  \<open>'failure'\<close>); \<open>webidl.converters.ByteString\<close> returns the ByteString it is given. A
  constructor that throws yields no object. The fields start as their initializers say.
\<close>

definition startsWith :: "string \<Rightarrow> string \<Rightarrow> bool" where
  "startsWith s searchString = (take (length searchString) s = searchString)"

definition FormDataParser_new ::
  "(string \<Rightarrow> MIMEType option) \<Rightarrow> string \<Rightarrow> error + FormDataParser" where
  "FormDataParser_new parseMIMEType header =
     (if \<not> startsWith header ''multipart/form-data''
      then Inl (TypeError ''Expected multipart/form-data header'')
      else
        (case parseMIMEType header of
           None \<Rightarrow> Inl (TypeError ''Failed to parse the header'')
         | Some parsedMimeType \<Rightarrow>
             if mime_type parsedMimeType \<noteq> ''multipart''
                \<or> mime_subtype parsedMimeType \<noteq> ''form-data''
             then Inl (TypeError (''Expected header essence to be multipart/form-data, got ''
                        @ mime_type parsedMimeType @ ''/'' @ mime_subtype parsedMimeType))
             else
               (case mime_parameters parsedMimeType ''boundary'' of
                  None \<Rightarrow> Inl (TypeError ''Header has no boundary'')
                | Some b \<Rightarrow>
                    Inr \<lparr>mimeType = parsedMimeType, state = Beginning, currentChunk = [],
                         nextChunk = [], boundary = Buffer_from (''--'' @ b), lastBytes = None,
                         emitted = []\<rparr>)))"

text \<open>
  The straight-line parts of \<open>write\<close>. In the Body state the chunk first goes to the line
  queue (no tail yet and no CRLF in the chunk) or into the rolling tail \<open>lastBytes\<close>.
\<close>

definition body_update :: "FormDataParser \<Rightarrow> buffer \<Rightarrow> FormDataParser" where
  "body_update this chunk =
     (case lastBytes this of
        None \<Rightarrow>
          if \<not> buf_includes chunk CRLF
          then this\<lparr>currentChunk := currentChunk this @ [chunk]\<rparr>
          else this\<lparr>lastBytes := Some chunk\<rparr>
      | Some bytes \<Rightarrow> this\<lparr>lastBytes := Some (bytes @ chunk)\<rparr>)"

text \<open>
  With the boundary found at \<open>boundaryIndex\<close> in the tail \<open>bytes\<close>:
  \<open>toBoundary = bytes.subarray(0, boundaryIndex - CRLF.length)\<close> is queued as the body, the
  tail from \<open>toBoundary.length\<close> on is queued for the next write, the tail is dropped.
\<close>

definition body_split :: "FormDataParser \<Rightarrow> buffer \<Rightarrow> int \<Rightarrow> FormDataParser" where
  "body_split this bytes boundaryIndex =
     (let toBoundary = subarray bytes 0 (boundaryIndex - int (length CRLF))
      in this\<lparr>currentChunk := currentChunk this @ [toBoundary],
               nextChunk := nextChunk this @
                 [subarray bytes (int (length toBoundary)) (int (length bytes))],
               lastBytes := None\<rparr>)"

text \<open>
  In the other states, with the line terminator found at \<open>crlf\<close>:
  \<open>header = chunk.slice(0, crlf)\<close> is queued as the end of the line and
  \<open>rest = chunk.slice(crlf + CRLF.length)\<close>, when not empty, for the next write.
\<close>

definition line_split :: "FormDataParser \<Rightarrow> buffer \<Rightarrow> int \<Rightarrow> FormDataParser" where
  "line_split this chunk crlf =
     (let header = subarray chunk 0 crlf;
          rest = subarray chunk (crlf + int (length CRLF)) (int (length chunk));
          this1 = this\<lparr>currentChunk := currentChunk this @ [header]\<rparr>
      in if length rest \<noteq> 0 then this1\<lparr>nextChunk := nextChunk this1 @ [rest]\<rparr> else this1)"

text \<open>
  The straight-line parts of \<open>parse\<close>, from the emit to the reset of the two queues, for
  a boundary line (states Beginning and Boundary), a header line and a body.
\<close>

definition boundary_parsed :: "FormDataParser \<Rightarrow> buffer \<Rightarrow> FormDataParser" where
  "boundary_parsed this buffer =
     (let this1 =
            (if state this = Beginning
             then emit (boundary_event (subarray buffer 2 (int (length buffer)))) this
             else emit (boundary_event (subarray buffer 4 (int (length buffer)))) this)
      in this1\<lparr>currentChunk := [], nextChunk := [], state := Headers\<rparr>)"

definition header_parsed :: "FormDataParser \<Rightarrow> buffer \<Rightarrow> FormDataParser" where
  "header_parsed this buffer =
     (let this1 = (if length buffer \<noteq> 0 then emit (header_event buffer) this
                   else this\<lparr>state := Body\<rparr>)
      in this1\<lparr>currentChunk := [], nextChunk := []\<rparr>)"

definition body_parsed :: "FormDataParser \<Rightarrow> buffer \<Rightarrow> FormDataParser" where
  "body_parsed this buffer =
     (let this1 = (emit (body_event buffer) this)\<lparr>state := Boundary\<rparr>
      in this1\<lparr>currentChunk := [], nextChunk := []\<rparr>)"

text \<open>
  \<open>write (chunk)\<close>, \<open>parse (chunks)\<close> and the loop that ends each case of \<open>parse\<close>,
  \<open>for (const nextChunk of next) this.write(nextChunk)\<close>, where \<open>next\<close> is the queue
  \<open>nextChunk\<close> as it was before the reset. A throw of a nested call ends the loop and the
  calls around it. The \<open>switch\<close> of \<open>write\<close> has two arms, one for the three
  line-oriented states and one for Body; in the Body state with no tail,
  \<open>this.#lastBytes.indexOf\<close> is a method call on \<open>undefined\<close>.
\<close>

function FormDataParser_write :: "FormDataParser \<Rightarrow> buffer \<Rightarrow> FormDataParser effect"
  and FormDataParser_parse :: "FormDataParser \<Rightarrow> buffer list \<Rightarrow> FormDataParser effect"
  and write_each :: "FormDataParser \<Rightarrow> buffer list \<Rightarrow> FormDataParser effect"
where
  "FormDataParser_write this chunk =
     (if state this = Beginning \<or> state this = Boundary \<or> state this = Headers
      then
        (let crlf = indexOf chunk CRLF (if state this = Boundary then 2 else 0)
         in if crlf = - 1 then (None, this\<lparr>currentChunk := currentChunk this @ [chunk]\<rparr>)
            else FormDataParser_parse (line_split this chunk crlf)
                   (currentChunk (line_split this chunk crlf)))
      else
        (let this1 = body_update this chunk
         in case lastBytes this1 of
              None \<Rightarrow> (Some (undefined_read ''indexOf''), this1)
            | Some bytes \<Rightarrow>
                let boundaryIndex = indexOf bytes (boundary this1) 0
                in if length bytes < 1024 \<and> boundaryIndex = - 1 then (None, this1)
                   else if boundaryIndex \<noteq> - 1
                   then FormDataParser_parse (body_split this1 bytes boundaryIndex)
                          (currentChunk (body_split this1 bytes boundaryIndex))
                   else (None, this1)))"
| "FormDataParser_parse this chunks =
     (if state this = Boundary \<or> state this = Beginning
      then
        (let buffer = combineChunks chunks
         in if \<not> (indexOf buffer (boundary this) 0 \<noteq> - 1) then (Some AssertionError, this)
            else write_each (boundary_parsed this buffer) (nextChunk this))
      else if state this = Headers
      then write_each (header_parsed this (combineChunks chunks)) (nextChunk this)
      else write_each (body_parsed this (combineChunks chunks)) (nextChunk this))"
| "write_each this [] = (None, this)"
| "write_each this (chunk # chunks) =
     (case FormDataParser_write this chunk of
        (Some e, this') \<Rightarrow> (Some e, this')
      | (None, this') \<Rightarrow> write_each this' chunks)"
  by pat_completeness auto

text \<open>
  Termination. Every byte that is still to be written again (in \<open>nextChunk\<close>, in the
  rolling tail, in the chunk at hand) weighs 4 and every chunk 1 more; a line-oriented
  step drops the two bytes of its CRLF, and the states order the steps in between.
\<close>

definition chunk_weight :: "buffer \<Rightarrow> nat" where
  "chunk_weight c = 4 * length c + 1"

definition pending :: "FormDataParser \<Rightarrow> nat" where
  "pending this =
     sum_list (map chunk_weight (nextChunk this))
     + 4 * (case lastBytes this of None \<Rightarrow> 0 | Some bytes \<Rightarrow> length bytes)"

definition write_rank :: "FormDataParser \<Rightarrow> nat" where
  "write_rank this = pending this + (if state this = Body then 3 else 0)"

definition parse_rank :: "FormDataParser \<Rightarrow> nat" where
  "parse_rank this = pending this + (if state this = Headers then 5 else 2)"

definition call_rank ::
  "FormDataParser \<times> buffer + FormDataParser \<times> buffer list + FormDataParser \<times> buffer list \<Rightarrow> nat" where
  "call_rank x =
     (case x of
        Inl (this, chunk) \<Rightarrow> write_rank this + chunk_weight chunk
      | Inr (Inl (this, chunks)) \<Rightarrow> parse_rank this
      | Inr (Inr (this, chunks)) \<Rightarrow> write_rank this + sum_list (map chunk_weight chunks) + 1)"

lemma indexOf_loop_range:
  "indexOf_loop v xs i = r \<Longrightarrow> r \<noteq> - 1 \<Longrightarrow>
     int i \<le> r \<and> r + int (length v) \<le> int i + int (length xs)"
proof (induction xs arbitrary: i)
  case Nil
  then show ?case by (auto split: if_splits)
next
  case (Cons x xs)
  show ?case
  proof (cases "take (length v) (x # xs) = v")
    case True
    then have "length (take (length v) (x # xs)) = length v" by simp
    then have "length v \<le> length (x # xs)"
      by (metis length_take min.cobounded1)
    with True Cons.prems show ?thesis by auto
  next
    case False
    with Cons.prems have "indexOf_loop v xs (i + 1) = r" by simp
    from Cons.IH [OF this Cons.prems(2)] show ?thesis by auto
  qed
qed

lemma indexOf_range:
  assumes "indexOf buf v byteOffset = r" and "r \<noteq> - 1"
  shows "int (min byteOffset (length buf)) \<le> r \<and> r + int (length v) \<le> int (length buf)"
proof -
  from assms have "indexOf_loop v (drop byteOffset buf) (min byteOffset (length buf)) = r"
    by (simp add: indexOf_def)
  from indexOf_loop_range [OF this assms(2)] show ?thesis by auto
qed

lemma length_subarray_le: "length (subarray buf s e) \<le> length buf"
  by (simp add: subarray_def Let_def)

lemma length_subarray_tail:
  "0 \<le> s \<Longrightarrow> length (subarray buf s (int (length buf))) = length buf - nat s"
  by (auto simp: subarray_def relative_index_def Let_def)

lemma body_update_fields [simp]:
  "state (body_update this chunk) = state this"
  "nextChunk (body_update this chunk) = nextChunk this"
  "boundary (body_update this chunk) = boundary this"
  "emitted (body_update this chunk) = emitted this"
  by (simp_all add: body_update_def split: option.splits)

lemma body_update_tail:
  "lastBytes (body_update this chunk) = Some bytes \<Longrightarrow>
     length bytes = (case lastBytes this of None \<Rightarrow> 0 | Some old \<Rightarrow> length old) + length chunk"
  by (auto simp: body_update_def split: option.splits if_splits)

lemma write_rank_body_update:
  "write_rank (body_update this chunk) < write_rank this + chunk_weight chunk"
  by (auto simp: write_rank_def pending_def chunk_weight_def body_update_def split: option.splits)

lemma parse_rank_body_split:
  assumes "state this = Body" and "lastBytes (body_update this chunk) = Some bytes"
  shows "parse_rank (body_split (body_update this chunk) bytes i) < write_rank this + chunk_weight chunk"
proof -
  have "length (subarray bytes (int (length (subarray bytes 0 (i - int (length CRLF)))))
          (int (length bytes))) \<le> length bytes"
    by (rule length_subarray_le)
  with assms body_update_tail [OF assms(2)] show ?thesis
    by (simp add: parse_rank_def write_rank_def pending_def chunk_weight_def body_split_def Let_def)
qed

lemma line_split_fields [simp]:
  "state (line_split this chunk crlf) = state this"
  "lastBytes (line_split this chunk crlf) = lastBytes this"
  "boundary (line_split this chunk crlf) = boundary this"
  "emitted (line_split this chunk crlf) = emitted this"
  by (simp_all add: line_split_def Let_def)

lemma parse_rank_line_split:
  assumes "state this \<noteq> Body" and "indexOf chunk CRLF off = crlf" and "crlf \<noteq> - 1"
  shows "parse_rank (line_split this chunk crlf) < write_rank this + chunk_weight chunk"
proof -
  from indexOf_range [OF assms(2,3)] have r: "0 \<le> crlf" "crlf + 2 \<le> int (length chunk)"
    by (auto simp: CRLF_def)
  then have "length (subarray chunk (crlf + int (length CRLF)) (int (length chunk)))
      = length chunk - nat (crlf + 2)"
    by (simp add: length_subarray_tail CRLF_def)
  with r assms(1) show ?thesis
    by (auto simp: parse_rank_def write_rank_def pending_def chunk_weight_def line_split_def Let_def)
qed

lemma write_rank_parsed:
  "state this = Boundary \<or> state this = Beginning \<Longrightarrow>
     Suc (write_rank (boundary_parsed this buffer) + sum_list (map chunk_weight (nextChunk this)))
       < parse_rank this"
  "state this = Headers \<Longrightarrow>
     Suc (write_rank (header_parsed this buffer) + sum_list (map chunk_weight (nextChunk this)))
       < parse_rank this"
  "state this = Body \<Longrightarrow>
     Suc (write_rank (body_parsed this buffer) + sum_list (map chunk_weight (nextChunk this)))
       < parse_rank this"
  by (auto simp: write_rank_def parse_rank_def pending_def boundary_parsed_def header_parsed_def
      body_parsed_def emit_def Let_def)

lemma ranks_of_results:
  "FormDataParser_write_FormDataParser_parse_write_each_dom (Inl (this, chunk)) \<Longrightarrow>
     write_rank (snd (FormDataParser_write this chunk)) < write_rank this + chunk_weight chunk"
  "FormDataParser_write_FormDataParser_parse_write_each_dom (Inr (Inl (this, chunks))) \<Longrightarrow>
     write_rank (snd (FormDataParser_parse this chunks)) < parse_rank this"
  "FormDataParser_write_FormDataParser_parse_write_each_dom (Inr (Inr (this, cs))) \<Longrightarrow>
     write_rank (snd (write_each this cs)) < write_rank this + sum_list (map chunk_weight cs) + 1"
proof (induct rule: FormDataParser_write_FormDataParser_parse_write_each.pinduct)
  case (1 this chunk)
  show ?case
  proof (cases "state this = Beginning \<or> state this = Boundary \<or> state this = Headers")
    case line: True
    then have nb: "state this \<noteq> Body" by auto
    let ?crlf = "indexOf chunk CRLF (if state this = Boundary then 2 else 0)"
    show ?thesis
    proof (cases "?crlf = - 1")
      case True
      with line 1(1) show ?thesis
        by (simp add: FormDataParser_write.psimps write_rank_def pending_def chunk_weight_def Let_def)
    next
      case c: False
      from "1.hyps"(2) [OF line refl c]
      have "write_rank (snd (FormDataParser_parse (line_split this chunk ?crlf)
                (currentChunk (line_split this chunk ?crlf))))
              < parse_rank (line_split this chunk ?crlf)" .
      with parse_rank_line_split [OF nb refl c] line c 1(1) show ?thesis
        by (simp add: FormDataParser_write.psimps Let_def)
    qed
  next
    case other: False
    then have b: "state this = Body" by (cases "state this") auto
    show ?thesis
    proof (cases "lastBytes (body_update this chunk)")
      case None
      with other 1(1) write_rank_body_update [of this chunk] show ?thesis
        by (simp add: FormDataParser_write.psimps)
    next
      case (Some bytes)
      let ?i = "indexOf bytes (boundary (body_update this chunk)) 0"
      show ?thesis
      proof (cases "?i = - 1")
        case True
        with other Some 1(1) write_rank_body_update [of this chunk] show ?thesis
          by (simp add: FormDataParser_write.psimps Let_def)
      next
        case False
        from "1.hyps"(3) [OF other refl Some refl _ False] False
        have "write_rank (snd (FormDataParser_parse (body_split (body_update this chunk) bytes ?i)
                (currentChunk (body_split (body_update this chunk) bytes ?i))))
              < parse_rank (body_split (body_update this chunk) bytes ?i)"
          by simp
        with parse_rank_body_split [OF b Some, of ?i] other Some False 1(1) show ?thesis
          by (simp add: FormDataParser_write.psimps Let_def)
      qed
    qed
  qed
next
  case (2 this chunks)
  show ?case
  proof (cases "state this = Boundary \<or> state this = Beginning")
    case True
    show ?thesis
    proof (cases "indexOf (combineChunks chunks) (boundary this) 0 = - 1")
      case a: True
      with True 2(1) show ?thesis
        by (auto simp: FormDataParser_parse.psimps write_rank_def parse_rank_def Let_def)
    next
      case a: False
      from "2.hyps"(2) [OF True refl] a write_rank_parsed(1) [OF True, of "combineChunks chunks"]
        True 2(1) show ?thesis
        by (simp add: FormDataParser_parse.psimps Let_def)
    qed
  next
    case nb: False
    show ?thesis
    proof (cases "state this = Headers")
      case True
      from "2.hyps"(3) [OF nb True] write_rank_parsed(2) [OF True, of "combineChunks chunks"]
        True 2(1) show ?thesis
        by (simp add: FormDataParser_parse.psimps Let_def)
    next
      case False
      with nb have b: "state this = Body" by (cases "state this") auto
      from "2.hyps"(4) [OF nb False] write_rank_parsed(3) [OF b, of "combineChunks chunks"]
        b 2(1) show ?thesis
        by (simp add: FormDataParser_parse.psimps)
    qed
  qed
next
  case (3 this)
  then show ?case by (simp add: write_each.psimps)
next
  case (4 this chunk chunks)
  obtain thrown this' where w: "FormDataParser_write this chunk = (thrown, this')"
    by (cases "FormDataParser_write this chunk")
  show ?case
  proof (cases thrown)
    case None
    from "4.hyps"(3) [OF w [symmetric] None] "4.hyps"(2) w None 4(1) show ?thesis
      by (simp add: write_each.psimps)
  next
    case (Some e)
    with "4.hyps"(2) w 4(1) show ?thesis
      by (simp add: write_each.psimps)
  qed
qed

termination FormDataParser_write
  apply (relation "measure call_rank")
  apply (simp_all add: call_rank_def write_rank_parsed)
  subgoal for this chunk x
    using parse_rank_line_split [of this chunk 2 "indexOf chunk CRLF 2"]
      parse_rank_line_split [of this chunk 0 "indexOf chunk CRLF 0"]
    by (cases "state this = Boundary") auto
  subgoal for this chunk x x2 xa
    using parse_rank_body_split [of this chunk x2 "indexOf x2 (boundary this) 0"]
    by (cases "state this") simp_all
  subgoal for this chunks
    using write_rank_parsed(3) [of this "combineChunks chunks"]
    by (cases "state this") auto
  subgoal for this chunk x y
    using ranks_of_results(1) [of this chunk]
    by (metis snd_conv)
  done

declare FormDataParser_write.simps [simp del] FormDataParser_parse.simps [simp del]

text \<open>
  A caller that hands the parser a sequence of chunks, one \<open>write\<close> call each, and does
  not catch: the first throw ends the sequence.
\<close>

definition write_all :: "FormDataParser \<Rightarrow> buffer list \<Rightarrow> FormDataParser effect" where
  "write_all this chunks = write_each this chunks"

text \<open>
  An instance of the parameter \<open>parseMIMEType\<close> for the examples: it knows the one header
  shape \<open>multipart/form-data; boundary=X\<close> and reads type and subtype without regard to
  case, as the essence of a MIME type is compared.
\<close>

definition parseMIMEType_sample :: "string \<Rightarrow> MIMEType option" where
  "parseMIMEType_sample header =
     (if toLowerCase (take 19 header) = ''multipart/form-data''
         \<and> drop 19 header = ''; boundary=X''
      then Some \<lparr>mime_type = ''multipart'', mime_subtype = ''form-data'',
                  mime_parameters = [''boundary'' \<mapsto> ''X'']\<rparr>
      else None)"

text \<open>
  The parser that the constructor returns for \<open>multipart/form-data; boundary=X\<close> (its
  boundary marker is \<open>Buffer.from('--X')\<close>), the complete single-field body of the spec
  (61 bytes), and its head up to the blank line.
\<close>

definition parser_X :: FormDataParser where
  "parser_X =
     \<lparr>mimeType = \<lparr>mime_type = ''multipart'', mime_subtype = ''form-data'',
                   mime_parameters = [''boundary'' \<mapsto> ''X'']\<rparr>,
      state = Beginning, currentChunk = [], nextChunk = [], boundary = ''--X'',
      lastBytes = None, emitted = []\<rparr>"

definition disposition_line :: buffer where
  "disposition_line = ''Content-Disposition: form-data; name='' @ [CHR 0x22] @ ''a'' @ [CHR 0x22]"

definition single_field_head :: buffer where
  "single_field_head = ''--X'' @ CRLF @ disposition_line @ CRLF @ CRLF"

definition single_field_input :: buffer where
  "single_field_input = single_field_head @ ''hello'' @ CRLF @ ''--X--''"

section \<open>HeadersList: properties\<close>

lemma toLowerCase_idem: "toLowerCase (toLowerCase s) = toLowerCase s"
proof -
  have "toLowerCase_char (toLowerCase_char c) = toLowerCase_char c" for c
  proof -
    have "of_char (char_of (of_char c + 32 :: nat)) = (of_char c + 32 :: nat)"
      if "(of_char c :: nat) \<le> 222"
      using that by (simp add: of_char_of)
    then show ?thesis
      by (auto simp: toLowerCase_char_def Let_def)
  qed
  then show ?thesis by (simp add: toLowerCase_def)
qed

text \<open>
  C2. When the list already holds a pair whose name matches \<open>name\<close> case-insensitively,
  \<open>append\<close> does add a new pair at the end, but its name slot holds \<open>undefined\<close>
  (the result of \<open>this[idx]\<close>), not the first match's name: after
  \<open>append('Content-Type', 'a')\<close> and \<open>append('content-type', 'b')\<close> the backing array is
  \<open>['Content-Type', 'a', undefined, 'b']\<close>.
\<close>

theorem append_existing_name_stores_undefined:
  "HeadersList_append (snd (HeadersList_append (HeadersList_new None) ''Content-Type'' ''a''))
       ''content-type'' ''b''
   = (None, \<lparr>backer = [JString ''Content-Type'', JString ''a'', JUndefined, JString ''b'']\<rparr>)"
  by code_simp

text \<open>
  C3. \<open>get\<close> reads each matching value as \<open>this[index + 1]\<close>, which is \<open>undefined\<close>: after
  \<open>append('n', 'v1')\<close> it returns the text \<open>undefined\<close> instead of \<open>v1\<close>, and after a
  second \<open>append('n', 'v2')\<close> its lookup from index 2 meets the \<open>undefined\<close> name slot left
  by that append and throws a TypeError instead of returning \<open>v1, v2\<close>. With no match and
  no such slot it returns null.
\<close>

theorem get_returns_undefined_text_or_throws:
  "HeadersList_get (snd (HeadersList_append (HeadersList_new None) ''n'' ''v1'')) ''n''
     = Inr (Some ''undefined'')
   \<and> HeadersList_get (snd (HeadersList_append
         (snd (HeadersList_append (HeadersList_new None) ''n'' ''v1'')) ''n'' ''v2'')) ''n''
     = Inl (undefined_read ''toLowerCase'')
   \<and> HeadersList_get (snd (HeadersList_append (HeadersList_new None) ''n'' ''v1'')) ''m''
     = Inr None"
  by code_simp

text \<open>
  C4. \<open>sortAndCombine\<close> reads each name as \<open>this[i]\<close>, which is \<open>undefined\<close>, and calls
  \<open>toLowerCase\<close> on it: for the list built by appending \<open>b\<close>, \<open>A\<close>, \<open>a\<close> with the values
  \<open>1\<close>, \<open>2\<close>, \<open>3\<close> it throws a TypeError at the first pair instead of returning
  \<open>[('a', '2, 3'), ('b', '1')]\<close>. The list itself is left as it was.
\<close>

theorem sortAndCombine_example_throws:
  "HeadersList_sortAndCombine
     (snd (HeadersList_append (snd (HeadersList_append (snd (HeadersList_append
        (HeadersList_new None) ''b'' ''1'')) ''A'' ''2'')) ''a'' ''3''))
   = (Inl (undefined_read ''toLowerCase''),
      \<lparr>backer = [JString ''b'', JString ''1'', JString ''A'', JString ''2'',
                 JUndefined, JString ''3'']\<rparr>)"
  by code_simp

text \<open>
  C9. On the list reached by \<open>append('a', '1')\<close> and \<open>append('A', '2')\<close>, \<open>delete('a')\<close>
  removes the first pair and then throws a TypeError: its next lookup reads the name slot
  that the second append filled with \<open>undefined\<close>. The pair \<open>(undefined, '2')\<close> stays in the
  list, and \<open>has('A')\<close> on the list that the delete left throws as well instead of
  returning false.
\<close>

theorem delete_after_repeated_append_throws:
  "HeadersList_delete (snd (HeadersList_append
       (snd (HeadersList_append (HeadersList_new None) ''a'' ''1'')) ''A'' ''2'')) ''a''
     = (Some (undefined_read ''toLowerCase''), \<lparr>backer = [JUndefined, JString ''2'']\<rparr>)
   \<and> HeadersList_has \<lparr>backer = [JUndefined, JString ''2'']\<rparr> ''A''
     = Inl (undefined_read ''toLowerCase'')"
  by code_simp

text \<open>
  The failures above are not tied to their inputs: \<open>append\<close> stores \<open>undefined\<close> for
  every name that the list already contains, and \<open>sortAndCombine\<close> throws on every list
  that is not empty.
\<close>

lemma append_known_name_stores_undefined:
  "HeadersList_contains h name 0 = Inr idx \<Longrightarrow> idx \<noteq> - 1 \<Longrightarrow>
     HeadersList_append h name val = (None, h\<lparr>backer := backer h @ [JUndefined, JString val]\<rparr>)"
  by (simp add: HeadersList_append_def this_at_def)

lemma sortAndCombine_nonempty_throws:
  "backer h \<noteq> [] \<Longrightarrow>
     HeadersList_sortAndCombine h = (Inl (undefined_read ''toLowerCase''), h)"
  by (simp add: HeadersList_sortAndCombine_def sortAndCombine_loop.simps [of h 0] this_at_def)

text \<open>
  On every list whose name slots all hold strings, \<open>delete\<close> returns, having removed
  exactly the pairs whose name matches, and \<open>has\<close> is false afterwards for every casing
  of the name. The failure above needs a name slot that holds \<open>undefined\<close>, which among
  the operations only \<open>append\<close> produces.
\<close>

lemma contains_loop_without_name:
  "names_defined xs \<Longrightarrow> contains_loop name (without_name name xs) i = Inr (- 1)"
proof (induction xs arbitrary: i rule: names_defined.induct)
  case 1
  then show ?case by simp
next
  case (2 n)
  then show ?case by (cases n) auto
next
  case (3 n v rest)
  then show ?case by (cases n) auto
qed

lemma contains_loop_first_match:
  "names_defined xs \<Longrightarrow>
     (contains_loop name xs i = Inr (- 1) \<and> without_name name xs = xs)
     \<or> (\<exists>d. contains_loop name xs i = Inr (int (i + d)) \<and> even d \<and> d < length xs
            \<and> without_name name xs = take d xs @ without_name name (drop (d + 2) xs))"
proof (induction xs arbitrary: i rule: names_defined.induct)
  case 1
  then show ?case by simp
next
  case (2 n)
  then show ?case by (cases n) auto
next
  case (3 n v rest)
  then obtain s where n: "n = JString s" by (cases n) auto
  show ?case
  proof (cases "toLowerCase s = name")
    case True
    with n have "contains_loop name (n # v # rest) i = Inr (int (i + 0))"
      and "without_name name (n # v # rest) = take 0 (n # v # rest) @ without_name name (drop (0 + 2) (n # v # rest))"
      by simp_all
    then show ?thesis by (intro disjI2 exI [of _ 0]) simp
  next
    case False
    from 3 have nd: "names_defined rest" by simp
    from "3.IH" [OF nd, of "i + 2"]
    show ?thesis
    proof (elim disjE exE conjE)
      assume "contains_loop name rest (i + 2) = Inr (- 1)" and "without_name name rest = rest"
      with n False show ?thesis by simp
    next
      fix d
      assume c: "contains_loop name rest (i + 2) = Inr (int (i + 2 + d))" and e: "even d"
        and l: "d < length rest"
        and w: "without_name name rest = take d rest @ without_name name (drop (d + 2) rest)"
      from n False c have "contains_loop name (n # v # rest) i = Inr (int (i + (d + 2)))"
        by (simp add: add.commute add.left_commute)
      moreover from n False w
      have "without_name name (n # v # rest)
          = take (d + 2) (n # v # rest) @ without_name name (drop (d + 2 + 2) (n # v # rest))"
        by simp
      ultimately show ?thesis using e l
        by (intro disjI2 exI [of _ "d + 2"]) simp
    qed
  qed
qed

lemma names_defined_drop: "names_defined xs \<Longrightarrow> even k \<Longrightarrow> names_defined (drop k xs)"
proof (induction xs arbitrary: k rule: names_defined.induct)
  case 1
  then show ?case by simp
next
  case (2 n)
  then show ?case by (cases k) auto
next
  case (3 n v rest)
  show ?case
  proof (cases "k = 0")
    case True
    with 3 show ?thesis by simp
  next
    case False
    with \<open>even k\<close> obtain j where "k = Suc (Suc j)" "even j"
      by (cases k) (auto elim: oddE)
    with 3 show ?thesis by simp
  qed
qed

lemma names_defined_splice2: "names_defined xs \<Longrightarrow> even k \<Longrightarrow> names_defined (splice2 xs k)"
proof (induction xs arbitrary: k rule: names_defined.induct)
  case 1
  then show ?case by (simp add: splice2_def)
next
  case (2 n)
  then show ?case by (cases k) (auto simp: splice2_def)
next
  case (3 n v rest)
  show ?case
  proof (cases "k = 0")
    case True
    with 3 show ?thesis by (simp add: splice2_def)
  next
    case False
    with \<open>even k\<close> obtain j where j: "k = Suc (Suc j)" "even j"
      by (cases k) (auto elim: oddE)
    from 3 j have "names_defined (splice2 rest j)" by simp
    with 3 j show ?thesis by (simp add: splice2_def)
  qed
qed

lemma delete_from_result:
  "names_defined (backer h) \<Longrightarrow> even start \<Longrightarrow> start \<le> length (backer h) \<Longrightarrow>
     HeadersList_delete_from h name start
       = (None, h\<lparr>backer := take start (backer h)
                      @ without_name (toLowerCase name) (drop start (backer h))\<rparr>)"
proof (induction h name start rule: HeadersList_delete_from.induct)
  case (1 h name start)
  let ?b = "backer h" and ?n = "toLowerCase name"
  from 1 have nd: "names_defined (drop start ?b)" by (simp add: names_defined_drop)
  from "1.prems" have c: "HeadersList_contains h name start = contains_loop ?n (drop start ?b) start"
    by (simp add: HeadersList_contains_def)
  from contains_loop_first_match [OF nd, of ?n start] show ?case
  proof (elim disjE exE conjE)
    assume "contains_loop ?n (drop start ?b) start = Inr (- 1)"
      and "without_name ?n (drop start ?b) = drop start ?b"
    with c show ?thesis
      by (simp add: HeadersList_delete_from.simps [of h name start])
  next
    fix d
    assume f: "contains_loop ?n (drop start ?b) start = Inr (int (start + d))" and e: "even d"
      and l: "d < length (drop start ?b)"
      and w: "without_name ?n (drop start ?b)
          = take d (drop start ?b) @ without_name ?n (drop (d + 2) (drop start ?b))"
    let ?r = "start + d" and ?h = "h\<lparr>backer := splice2 ?b (start + d)\<rparr>"
    from c f have c': "HeadersList_contains h name start = Inr (int ?r)" by simp
    have ne: "int ?r \<noteq> - 1" by simp
    from l have lr: "?r < length ?b" by simp
    from 1 e have p1: "names_defined (backer ?h)" by (simp add: names_defined_splice2)
    from 1 e have p2: "even ?r" by simp
    from lr have p3: "?r \<le> length (backer ?h)" by (simp add: splice2_def)
    from "1.IH" [OF c' ne] p1 p2 p3
    have "HeadersList_delete_from ?h name ?r
        = (None, ?h\<lparr>backer := take ?r (backer ?h) @ without_name ?n (drop ?r (backer ?h))\<rparr>)"
      by (simp add: nat_int_add)
    moreover from lr have "take ?r (splice2 ?b ?r) = take ?r ?b"
      and "drop ?r (splice2 ?b ?r) = drop (?r + 2) ?b"
      by (simp_all add: splice2_def)
    moreover have "take ?r ?b = take start ?b @ take d (drop start ?b)"
      by (simp add: take_add)
    moreover have "drop (d + 2) (drop start ?b) = drop (?r + 2) ?b"
      by (simp add: add.commute add.left_commute)
    ultimately show ?thesis using c' w
      by (simp add: HeadersList_delete_from.simps [of h name start] nat_int_add)
  qed
qed

lemma delete_then_has_on_defined_names:
  assumes "names_defined (backer h)" and "toLowerCase name' = toLowerCase name"
  shows "fst (HeadersList_delete h name) = None"
    and "HeadersList_has (snd (HeadersList_delete h name)) name' = Inr False"
proof -
  from delete_from_result [OF assms(1), of 0 name]
  have d: "HeadersList_delete h name
      = (None, h\<lparr>backer := without_name (toLowerCase name) (backer h)\<rparr>)"
    by (simp add: HeadersList_delete_def)
  then show "fst (HeadersList_delete h name) = None" by simp
  from d assms contains_loop_without_name [OF assms(1), of "toLowerCase name" 0]
  show "HeadersList_has (snd (HeadersList_delete h name)) name' = Inr False"
    by (simp add: HeadersList_has_def HeadersList_contains_def)
qed

text \<open>
  The layout and the operations. \<open>clear\<close>, \<open>delete\<close> and \<open>set\<close> keep the layout, and so
  does \<open>append\<close> of a name that the list does not contain yet; the one step that
  loses it is \<open>append\<close> of a name that the list contains. The length stays even through
  every operation, whether it returns or throws.
\<close>

lemma paired_even_length: "paired xs \<Longrightarrow> even (length xs)"
  by (induction xs rule: paired.induct) auto

lemma paired_names_defined: "paired xs \<Longrightarrow> names_defined xs"
  by (induction xs rule: paired.induct) auto

lemma paired_slots: "paired xs \<Longrightarrow> i < length xs \<Longrightarrow> xs ! i \<noteq> JUndefined"
proof (induction xs arbitrary: i rule: paired.induct)
  case 1
  then show ?case by simp
next
  case (2 n)
  then show ?case by simp
next
  case (3 n v rest)
  show ?case
  proof (cases i)
    case 0
    with 3 show ?thesis by simp
  next
    case (Suc j)
    show ?thesis
    proof (cases j)
      case 0
      with Suc 3 show ?thesis by simp
    next
      case (Suc k)
      with \<open>i = Suc j\<close> 3 show ?thesis by simp
    qed
  qed
qed

lemma paired_push: "paired xs \<Longrightarrow> paired (xs @ [JString n, JString v])"
  by (induction xs rule: paired.induct) auto

lemma paired_splice2: "paired xs \<Longrightarrow> even i \<Longrightarrow> paired (splice2 xs i)"
proof (induction xs arbitrary: i rule: paired.induct)
  case 1
  then show ?case by (simp add: splice2_def)
next
  case (2 n)
  then show ?case by simp
next
  case (3 n v rest)
  show ?case
  proof (cases "i = 0")
    case True
    with 3 show ?thesis by (simp add: splice2_def)
  next
    case False
    with \<open>even i\<close> obtain j where j: "i = Suc (Suc j)" "even j"
      by (cases i) (auto elim: oddE)
    from 3 j have "paired (splice2 rest j)" by simp
    with 3 j show ?thesis by (simp add: splice2_def)
  qed
qed

lemma contains_loop_parity:
  "contains_loop name xs i = Inr r \<Longrightarrow> r \<noteq> - 1 \<Longrightarrow> even i \<Longrightarrow> even r"
proof (induction name xs i rule: contains_loop.induct)
  case (1 name i)
  then show ?case by simp
next
  case (2 name k rest i)
  then show ?case
    by (cases k) (auto split: if_splits)
qed

lemma contains_parity:
  "HeadersList_contains h name start = Inr r \<Longrightarrow> r \<noteq> - 1 \<Longrightarrow> even start \<Longrightarrow> even r"
  by (auto simp: HeadersList_contains_def split: if_splits dest: contains_loop_parity)

lemma paired_clear: "paired (backer (HeadersList_clear h))"
  by (simp add: HeadersList_clear_def)

lemma paired_delete:
  assumes "paired (backer h)"
  shows "fst (HeadersList_delete h name) = None"
    and "paired (backer (snd (HeadersList_delete h name)))"
proof -
  from assms have nd: "names_defined (backer h)" by (rule paired_names_defined)
  from delete_from_result [OF nd, of 0 name]
  have d: "HeadersList_delete h name
      = (None, h\<lparr>backer := without_name (toLowerCase name) (backer h)\<rparr>)"
    by (simp add: HeadersList_delete_def)
  then show "fst (HeadersList_delete h name) = None" by simp
  have "paired (without_name n xs)" if "paired xs" for n xs
    using that by (induction xs rule: paired.induct) auto
  with assms d show "paired (backer (snd (HeadersList_delete h name)))" by simp
qed

lemma paired_append_new_name:
  assumes "paired (backer h)" and "HeadersList_contains h name 0 = Inr (- 1)"
  shows "HeadersList_append h name val
      = (None, h\<lparr>backer := backer h @ [JString name, JString val]\<rparr>)"
    and "paired (backer (snd (HeadersList_append h name val)))"
  using assms by (simp_all add: HeadersList_append_def paired_push)

lemma paired_set:
  assumes "paired (backer h)"
  shows "fst (HeadersList_set h name val) = None"
    and "paired (backer (snd (HeadersList_set h name val)))"
proof -
  from assms have nd: "names_defined (backer h)" by (rule paired_names_defined)
  let ?h = "h\<lparr>backer := without_name (toLowerCase name) (backer h)\<rparr>"
  from delete_from_result [OF nd, of 0 name]
  have d: "HeadersList_delete h name = (None, ?h)"
    by (simp add: HeadersList_delete_def)
  from paired_delete(2) [OF assms, of name] d have p: "paired (backer ?h)" by simp
  from contains_loop_without_name [OF nd, of "toLowerCase name" 0]
  have c: "HeadersList_contains ?h name 0 = Inr (- 1)"
    by (simp add: HeadersList_contains_def)
  from d have s: "HeadersList_set h name val = HeadersList_append ?h name val"
    by (simp add: HeadersList_set_def)
  from paired_append_new_name(1) [OF p c, of val]
  have a1: "fst (HeadersList_append ?h name val) = None" by simp
  have a2: "paired (backer (snd (HeadersList_append ?h name val)))"
    by (rule paired_append_new_name(2) [OF p c])
  show "fst (HeadersList_set h name val) = None"
    unfolding s by (rule a1)
  show "paired (backer (snd (HeadersList_set h name val)))"
    unfolding s by (rule a2)
qed

lemma even_length_splice2: "even (length xs) \<Longrightarrow> even i \<Longrightarrow> even (length (splice2 xs i))"
proof (cases "i < length xs")
  case True
  assume e: "even (length xs)" "even i"
  with True have "i + 2 \<le> length xs"
    by (metis Suc_leI add_2_eq_Suc' even_Suc le_neq_implies_less)
  with e show ?thesis by (simp add: splice2_def min_def)
next
  case False
  assume "even (length xs)"
  with False show ?thesis by (simp add: splice2_def)
qed

lemma even_length_delete_from:
  "even (length (backer h)) \<Longrightarrow> even start \<Longrightarrow>
     even (length (backer (snd (HeadersList_delete_from h name start))))"
proof (induction h name start rule: HeadersList_delete_from.induct)
  case (1 h name start)
  show ?case
  proof (cases "HeadersList_contains h name start")
    case (Inl e)
    with 1 show ?thesis by (simp add: HeadersList_delete_from.simps [of h name start])
  next
    case (Inr index)
    show ?thesis
    proof (cases "index = - 1")
      case True
      with 1 Inr show ?thesis by (simp add: HeadersList_delete_from.simps [of h name start])
    next
      case False
      from contains_parity [OF Inr False \<open>even start\<close>] contains_range [OF Inr False]
      have ev: "even (nat index)" by (simp add: even_nat_iff)
      with 1 have "even (length (splice2 (backer h) (nat index)))"
        by (simp add: even_length_splice2)
      with "1.IH" [OF Inr False] ev Inr False show ?thesis
        by (simp add: HeadersList_delete_from.simps [of h name start])
    qed
  qed
qed

lemma even_length_kept:
  assumes "even (length (backer h))"
  shows "even (length (backer (snd (HeadersList_append h name val))))"
    and "even (length (backer (snd (HeadersList_delete h name))))"
    and "even (length (backer (snd (HeadersList_set h name val))))"
    and "even (length (backer (HeadersList_clear h)))"
proof -
  have a: "even (length (backer (snd (HeadersList_append h' name val))))"
    if "even (length (backer h'))" for h'
    using that by (auto simp: HeadersList_append_def Let_def split: sum.splits)
  from a [OF assms]
  show "even (length (backer (snd (HeadersList_append h name val))))" .
  from assms show d: "even (length (backer (snd (HeadersList_delete h name))))"
    by (simp add: HeadersList_delete_def even_length_delete_from)
  obtain thrown h' where r: "HeadersList_delete h name = (thrown, h')"
    by (cases "HeadersList_delete h name")
  with d have "even (length (backer h'))" by simp
  from a [OF this] r d
  show "even (length (backer (snd (HeadersList_set h name val))))"
    by (cases thrown) (simp_all add: HeadersList_set_def)
  show "even (length (backer (HeadersList_clear h)))"
    by (simp add: HeadersList_clear_def)
qed

text \<open>
  C10. The list made by \<open>new HeadersList()\<close> has the layout, and so has the list after
  \<open>append('a', '1')\<close>. After \<open>append('A', '2')\<close> the backing array is
  \<open>['a', '1', undefined, '2']\<close>: its length is even, but the even index 2 holds
  \<open>undefined\<close> instead of a header name, and the value \<open>2\<close> at index 3 has no name.
\<close>

theorem repeated_append_breaks_layout:
  "paired (backer (HeadersList_new None))
   \<and> paired (backer (snd (HeadersList_append (HeadersList_new None) ''a'' ''1'')))
   \<and> fst (HeadersList_append (snd (HeadersList_append (HeadersList_new None) ''a'' ''1''))
        ''A'' ''2'') = None
   \<and> backer (snd (HeadersList_append (snd (HeadersList_append (HeadersList_new None) ''a'' ''1''))
        ''A'' ''2''))
     = [JString ''a'', JString ''1'', JUndefined, JString ''2'']
   \<and> \<not> paired (backer (snd (HeadersList_append
        (snd (HeadersList_append (HeadersList_new None) ''a'' ''1'')) ''A'' ''2'')))"
  by code_simp

text \<open>
  C5. Validation comes first, the guard second, and nothing is written before either.
  Whatever the guard, an invalid name makes \<open>append\<close>, \<open>set\<close> and \<open>delete\<close> raise
  InvalidArgument, and a valid name with an invalid (normalized) value makes \<open>append\<close> and
  \<open>set\<close> raise InvalidArgument; with valid arguments and the guard \<open>immutable\<close> all three
  throw the TypeError \<open>immutable\<close>. In each case the Headers object, and with it its
  header list, is as before the call.
\<close>

theorem Headers_validation_then_guard:
  "(\<not> isValidHeaderName name \<longrightarrow>
        Headers_append isValidHeaderName isValidHeaderValue this name val
          = (Some (InvalidArgument ''Headers.append'' name ''header name''), this)
      \<and> Headers_set isValidHeaderName isValidHeaderValue this name val
          = (Some (InvalidArgument ''Headers.set'' name ''header name''), this)
      \<and> Headers_delete isValidHeaderName this name
          = (Some (InvalidArgument ''Headers.delete'' name ''header name''), this))
   \<and> (isValidHeaderName name \<and> \<not> isValidHeaderValue (headerValueNormalize val) \<longrightarrow>
        Headers_append isValidHeaderName isValidHeaderValue this name val
          = (Some (InvalidArgument ''Headers.append'' (headerValueNormalize val) ''header value''), this)
      \<and> Headers_set isValidHeaderName isValidHeaderValue this name val
          = (Some (InvalidArgument ''Headers.set'' (headerValueNormalize val) ''header value''), this))
   \<and> (isValidHeaderName name \<and> isValidHeaderValue (headerValueNormalize val)
        \<and> kGuard this = ''immutable'' \<longrightarrow>
        Headers_append isValidHeaderName isValidHeaderValue this name val
          = (Some (TypeError ''immutable''), this)
      \<and> Headers_set isValidHeaderName isValidHeaderValue this name val
          = (Some (TypeError ''immutable''), this)
      \<and> Headers_delete isValidHeaderName this name
          = (Some (TypeError ''immutable''), this))"
  by (simp add: Headers_append_def Headers_set_def Headers_delete_def invalidArgument_def Let_def)

theorem Headers_validation_then_guard_witness:
  "Headers_append (\<lambda>s. s \<noteq> []) (\<lambda>s. s \<noteq> ''bad'')
       \<lparr>kHeadersList = \<lparr>backer = [JString ''a'', JString ''1'']\<rparr>, kGuard = ''immutable''\<rparr> [] ''x''
     = (Some (InvalidArgument ''Headers.append'' [] ''header name''),
        \<lparr>kHeadersList = \<lparr>backer = [JString ''a'', JString ''1'']\<rparr>, kGuard = ''immutable''\<rparr>)
   \<and> Headers_set (\<lambda>s. s \<noteq> []) (\<lambda>s. s \<noteq> ''bad'')
       \<lparr>kHeadersList = \<lparr>backer = [JString ''a'', JString ''1'']\<rparr>, kGuard = ''immutable''\<rparr> ''a'' '' bad ''
     = (Some (InvalidArgument ''Headers.set'' ''bad'' ''header value''),
        \<lparr>kHeadersList = \<lparr>backer = [JString ''a'', JString ''1'']\<rparr>, kGuard = ''immutable''\<rparr>)
   \<and> Headers_delete (\<lambda>s. s \<noteq> [])
       \<lparr>kHeadersList = \<lparr>backer = [JString ''a'', JString ''1'']\<rparr>, kGuard = ''immutable''\<rparr> ''a''
     = (Some (TypeError ''immutable''),
        \<lparr>kHeadersList = \<lparr>backer = [JString ''a'', JString ''1'']\<rparr>, kGuard = ''immutable''\<rparr>)"
proof -
  let ?N = "\<lambda>s :: string. s \<noteq> []" and ?V = "\<lambda>s :: string. s \<noteq> ''bad''"
  let ?h = "\<lparr>kHeadersList = \<lparr>backer = [JString ''a'', JString ''1'']\<rparr>, kGuard = ''immutable''\<rparr>"
  have n: "headerValueNormalize '' bad '' = ''bad''"
    by (simp add: headerValueNormalize_def isHTTPWhitespace_def)
  have v: "headerValueNormalize ''x'' = ''x''"
    by (simp add: headerValueNormalize_def isHTTPWhitespace_def)
  from Headers_validation_then_guard [of ?N "[]" ?V ?h "''x''"]
    Headers_validation_then_guard [of ?N "''a''" ?V ?h "'' bad ''"]
    Headers_validation_then_guard [of ?N "''a''" ?V ?h "''x''"] n v
  show ?thesis by simp
qed

section \<open>FormDataParser: properties\<close>

lemma combineChunks_concat: "combineChunks chunks = concat chunks"
  by (cases chunks) (auto simp: combineChunks_def)

text \<open>
  C1. Written as one chunk, the single-field body gives the three events of the claim.
  Written one byte per call it gives no event at all: no one-byte chunk holds a CRLF, so
  every byte is queued and the parser stays in the state Beginning. Written as two chunks
  split between the CR and the LF of the first line (after byte 4), the boundary event
  carries the header line as well and no header event is emitted; split inside \<open>hello\<close>
  (after byte 50), the second write is never reached, the first one throws a TypeError.
\<close>

theorem single_field_chunking_dependent:
  "emitted (snd (write_all parser_X [single_field_input]))
     = [boundary_event ''X'', header_event disposition_line, body_event ''hello'']
   \<and> fst (write_all parser_X (map (\<lambda>byte. [byte]) single_field_input)) = None
   \<and> emitted (snd (write_all parser_X (map (\<lambda>byte. [byte]) single_field_input))) = []
   \<and> state (snd (write_all parser_X (map (\<lambda>byte. [byte]) single_field_input))) = Beginning
   \<and> emitted (snd (write_all parser_X [take 4 single_field_input, drop 4 single_field_input]))
     = [boundary_event (''X'' @ CRLF @ disposition_line), body_event ''hello'']
   \<and> fst (write_all parser_X [take 50 single_field_input, drop 50 single_field_input])
     = Some (undefined_read ''indexOf'')"
  by code_simp

text \<open>
  C6. After the head of the single-field body the parser is in the state Body with no
  rolling tail. The write of \<open>hello\<close>, a chunk without CRLF, queues the chunk and then
  throws a TypeError: \<open>this.#lastBytes.indexOf\<close> is called on the tail that was not set.
\<close>

theorem body_chunk_without_crlf_throws:
  "state (snd (write_all parser_X [single_field_head])) = Body
   \<and> lastBytes (snd (write_all parser_X [single_field_head])) = None
   \<and> \<not> buf_includes ''hello'' CRLF
   \<and> fst (FormDataParser_write (snd (write_all parser_X [single_field_head])) ''hello'')
     = Some (undefined_read ''indexOf'')
   \<and> currentChunk (snd (FormDataParser_write (snd (write_all parser_X [single_field_head])) ''hello''))
     = [''hello'']
   \<and> emitted (snd (FormDataParser_write (snd (write_all parser_X [single_field_head])) ''hello''))
     = emitted (snd (write_all parser_X [single_field_head]))"
  by code_simp

text \<open>
  This failure is not tied to its input: in the Body state with no rolling tail, every
  chunk without CRLF is queued and the call then throws.
\<close>

lemma body_write_without_tail_and_crlf:
  "state this = Body \<Longrightarrow> lastBytes this = None \<Longrightarrow> \<not> buf_includes chunk CRLF \<Longrightarrow>
     FormDataParser_write this chunk
       = (Some (undefined_read ''indexOf''), this\<lparr>currentChunk := currentChunk this @ [chunk]\<rparr>)"
  by (simp add: FormDataParser_write.simps [of this chunk] body_update_def)

lemma indexOf_loop_found:
  "indexOf_loop v xs k = r \<Longrightarrow> r \<noteq> - 1 \<Longrightarrow> take (length v) (drop (nat r - k) xs) = v"
proof (induction xs arbitrary: k)
  case Nil
  then show ?case by (auto split: if_splits)
next
  case (Cons x xs)
  show ?case
  proof (cases "take (length v) (x # xs) = v")
    case True
    with Cons.prems show ?thesis by simp
  next
    case False
    with Cons.prems have l: "indexOf_loop v xs (k + 1) = r" by simp
    from indexOf_loop_range [OF l Cons.prems(2)] have "nat r - k = Suc (nat r - (k + 1))" by auto
    with Cons.IH [OF l Cons.prems(2)] show ?thesis by simp
  qed
qed

lemma indexOf_found:
  "indexOf buf v 0 = r \<Longrightarrow> r \<noteq> - 1 \<Longrightarrow> take (length v) (drop (nat r) buf) = v"
  using indexOf_loop_found [of v buf 0 r] by (simp add: indexOf_def)

lemma subarray_take: "0 \<le> e \<Longrightarrow> subarray buf 0 e = take (nat e) buf"
  by (auto simp: subarray_def relative_index_def Let_def min_def)

lemma subarray_drop: "s \<le> length buf \<Longrightarrow> subarray buf (int s) (int (length buf)) = drop s buf"
  by (simp add: subarray_def relative_index_def Let_def)

lemma body_update_queue:
  "lastBytes (body_update this chunk) = Some bytes \<Longrightarrow>
     currentChunk (body_update this chunk) = currentChunk this"
  by (auto simp: body_update_def split: option.splits if_splits)

lemma parse_in_Body:
  "state this = Body \<Longrightarrow>
     FormDataParser_parse this chunks
       = write_each (body_parsed this (combineChunks chunks)) (nextChunk this)"
  by (simp add: FormDataParser_parse.simps [of this chunks])

text \<open>
  C7, as the code has it. In the Body state, when the first occurrence of the boundary
  marker in the rolling tail (the tail with the new chunk added) is at an index \<open>i\<close> of at
  least 2, \<open>write\<close> splits the tail at \<open>i - 2\<close>, emits one body event that carries the line
  queue followed by the bytes before the split, clears the tail and both queues, moves to
  the state Boundary and writes again what was queued for the next write, last the
  remainder. The remainder starts at index \<open>i - 2\<close>: two bytes, then the boundary marker.
\<close>

theorem body_boundary_found_step:
  "state this = Body \<and> lastBytes (body_update this chunk) = Some bytes
     \<and> indexOf bytes (boundary this) 0 = i \<and> 2 \<le> i \<longrightarrow>
   FormDataParser_write this chunk
     = write_each
         (this\<lparr>currentChunk := [], nextChunk := [], lastBytes := None, state := Boundary,
                emitted := emitted this @
                  [body_event (combineChunks (currentChunk this @ [take (nat i - 2) bytes]))]\<rparr>)
         (nextChunk this @ [drop (nat i - 2) bytes])
   \<and> take (length (boundary this)) (drop 2 (drop (nat i - 2) bytes)) = boundary this"
proof (intro impI, elim conjE)
  assume b: "state this = Body" and t: "lastBytes (body_update this chunk) = Some bytes"
    and i: "indexOf bytes (boundary this) 0 = i" and i2: "2 \<le> i"
  let ?this1 = "body_update this chunk"
  from i2 have neq: "i \<noteq> - 1" by simp
  from indexOf_range [OF i neq] have le: "nat i \<le> length bytes" by linarith
  from i2 have toBoundary: "subarray bytes 0 (i - int (length CRLF)) = take (nat i - 2) bytes"
    by (simp add: subarray_take CRLF_def nat_diff_distrib)
  from le have len: "length (take (nat i - 2) bytes) = nat i - 2" by simp
  from le have rest: "subarray bytes (int (nat i - 2)) (int (length bytes)) = drop (nat i - 2) bytes"
    by (intro subarray_drop) simp
  have split: "body_split ?this1 bytes i
      = ?this1\<lparr>currentChunk := currentChunk this @ [take (nat i - 2) bytes],
                nextChunk := nextChunk this @ [drop (nat i - 2) bytes],
                lastBytes := None\<rparr>"
    unfolding body_split_def Let_def toBoundary len rest
    by (simp add: body_update_queue [OF t])
  have parsed: "body_parsed (body_split ?this1 bytes i) buffer
      = this\<lparr>currentChunk := [], nextChunk := [], lastBytes := None, state := Boundary,
              emitted := emitted this @ [body_event buffer]\<rparr>" for buffer
    unfolding split using t
    by (auto simp: body_parsed_def emit_def Let_def body_update_def split: option.splits if_splits)
  have "FormDataParser_write this chunk
      = FormDataParser_parse (body_split ?this1 bytes i) (currentChunk (body_split ?this1 bytes i))"
    using b t i neq by (simp add: FormDataParser_write.simps [of this chunk] Let_def)
  also have "\<dots> = write_each
      (body_parsed (body_split ?this1 bytes i) (combineChunks (currentChunk (body_split ?this1 bytes i))))
      (nextChunk (body_split ?this1 bytes i))"
    using b by (intro parse_in_Body) (simp add: body_split_def Let_def)
  finally have step: "FormDataParser_write this chunk
      = write_each
          (this\<lparr>currentChunk := [], nextChunk := [], lastBytes := None, state := Boundary,
                 emitted := emitted this @
                   [body_event (combineChunks (currentChunk this @ [take (nat i - 2) bytes]))]\<rparr>)
          (nextChunk this @ [drop (nat i - 2) bytes])"
    unfolding parsed by (simp add: split)
  from i2 have "2 + (nat i - 2) = nat i" by simp
  with indexOf_found [OF i neq]
  have "take (length (boundary this)) (drop 2 (drop (nat i - 2) bytes)) = boundary this"
    by simp
  with step show "FormDataParser_write this chunk
      = write_each
          (this\<lparr>currentChunk := [], nextChunk := [], lastBytes := None, state := Boundary,
                 emitted := emitted this @
                   [body_event (combineChunks (currentChunk this @ [take (nat i - 2) bytes]))]\<rparr>)
          (nextChunk this @ [drop (nat i - 2) bytes])
    \<and> take (length (boundary this)) (drop 2 (drop (nat i - 2) bytes)) = boundary this"
    by simp
qed

theorem body_boundary_found_step_witness:
  "state (parser_X\<lparr>state := Body\<rparr>) = Body
   \<and> lastBytes (body_update (parser_X\<lparr>state := Body\<rparr>) (''hello'' @ CRLF @ ''--X--''))
       = Some (''hello'' @ CRLF @ ''--X--'')
   \<and> indexOf (''hello'' @ CRLF @ ''--X--'') (boundary (parser_X\<lparr>state := Body\<rparr>)) 0 = 7
   \<and> FormDataParser_write (parser_X\<lparr>state := Body\<rparr>) (''hello'' @ CRLF @ ''--X--'')
       = write_each
           (parser_X\<lparr>state := Body, currentChunk := [], nextChunk := [], lastBytes := None,
                      state := Boundary, emitted := [body_event ''hello'']\<rparr>)
           [CRLF @ ''--X--'']"
proof -
  let ?p = "parser_X\<lparr>state := Body\<rparr>" and ?c = "''hello'' @ CRLF @ ''--X--''"
  have h1: "state ?p = Body" by simp
  have h2: "lastBytes (body_update ?p ?c) = Some ?c" by code_simp
  have h3: "indexOf ?c (boundary ?p) 0 = 7" by code_simp
  have h4: "(2::int) \<le> 7" by simp
  have e: "emitted ?p = []" "currentChunk ?p = []" "nextChunk ?p = []"
    by (simp_all add: parser_X_def)
  from body_boundary_found_step [of ?p ?c ?c 7] h1 h2 h3 h4
  have "FormDataParser_write ?p ?c
      = write_each
          (?p\<lparr>currentChunk := [], nextChunk := [], lastBytes := None, state := Boundary,
                  emitted := emitted ?p @
                    [body_event (combineChunks (currentChunk ?p @ [take (nat 7 - 2) ?c]))]\<rparr>)
          (nextChunk ?p @ [drop (nat 7 - 2) ?c])"
    by blast
  then show ?thesis using h1 h2 h3
    by (simp add: e combineChunks_def CRLF_def)
qed

text \<open>
  C7 as stated fails. On the tail \<open>hello\r\n--X--\<close> (marker at index 7) the remainder
  that is written again is \<open>\r\n--X--\<close>: it starts with the CRLF, not with the marker. On
  the tail \<open>--X\r\nfoo\<close> (marker at index 0) the end index \<open>0 - 2\<close> counts from the end of
  the tail: the body event carries \<open>--X\r\nf\<close> and the remainder is \<open>oo\<close>.
\<close>

theorem body_remainder_not_at_marker:
  "nextChunk (body_split (body_update (parser_X\<lparr>state := Body\<rparr>) (''hello'' @ CRLF @ ''--X--''))
       (''hello'' @ CRLF @ ''--X--'') 7) = [CRLF @ ''--X--'']
   \<and> currentChunk (snd (FormDataParser_write (parser_X\<lparr>state := Body\<rparr>)
       (''hello'' @ CRLF @ ''--X--''))) = [CRLF @ ''--X--'']
   \<and> \<not> startsWith (CRLF @ ''--X--'') ''--X''
   \<and> indexOf (''--X'' @ CRLF @ ''foo'') ''--X'' 0 = 0
   \<and> emitted (snd (FormDataParser_write (parser_X\<lparr>state := Body\<rparr>) (''--X'' @ CRLF @ ''foo'')))
       = [body_event (''--X'' @ CRLF @ ''f'')]
   \<and> currentChunk (snd (FormDataParser_write (parser_X\<lparr>state := Body\<rparr>)
       (''--X'' @ CRLF @ ''foo''))) = [''oo'']"
  by code_simp

text \<open>
  C8, as the code has it. Construction throws exactly when the header does not start with
  the literal text \<open>multipart/form-data\<close> (a test of the raw header, case and all, made
  before the MIME parser is asked), or the header fails MIME parsing, or its parsed type
  and subtype are not \<open>multipart\<close> and \<open>form-data\<close>, or its parameters have no
  \<open>boundary\<close>; a constructor that throws yields no parser. So \<open>text/plain\<close> fails whatever
  the MIME parser; \<open>multipart/form-data\<close> fails when the MIME parser finds no boundary
  parameter in it; and \<open>multipart/form-data; boundary=X\<close>, parsed as such, gives the
  parser with the boundary marker \<open>--X\<close> in the state Beginning.
\<close>

theorem constructor_fails_iff:
  "(isl (FormDataParser_new parseMIMEType header) \<longleftrightarrow>
      \<not> startsWith header ''multipart/form-data''
      \<or> parseMIMEType header = None
      \<or> (\<exists>m. parseMIMEType header = Some m
            \<and> (mime_type m \<noteq> ''multipart'' \<or> mime_subtype m \<noteq> ''form-data''
                \<or> mime_parameters m ''boundary'' = None)))
   \<and> isl (FormDataParser_new parseMIMEType ''text/plain'')
   \<and> ((\<forall>m. parseMIMEType ''multipart/form-data'' = Some m \<longrightarrow> mime_parameters m ''boundary'' = None)
        \<longrightarrow> isl (FormDataParser_new parseMIMEType ''multipart/form-data''))
   \<and> (parseMIMEType ''multipart/form-data; boundary=X''
          = Some \<lparr>mime_type = ''multipart'', mime_subtype = ''form-data'',
                  mime_parameters = [''boundary'' \<mapsto> ''X'']\<rparr>
        \<longrightarrow> FormDataParser_new parseMIMEType ''multipart/form-data; boundary=X'' = Inr parser_X)"
proof (intro conjI impI)
  show "isl (FormDataParser_new parseMIMEType header) \<longleftrightarrow>
      \<not> startsWith header ''multipart/form-data''
      \<or> parseMIMEType header = None
      \<or> (\<exists>m. parseMIMEType header = Some m
            \<and> (mime_type m \<noteq> ''multipart'' \<or> mime_subtype m \<noteq> ''form-data''
                \<or> mime_parameters m ''boundary'' = None))"
    by (auto simp: FormDataParser_new_def split: option.splits)
next
  show "isl (FormDataParser_new parseMIMEType ''text/plain'')"
    by (simp add: FormDataParser_new_def startsWith_def)
next
  assume "\<forall>m. parseMIMEType ''multipart/form-data'' = Some m \<longrightarrow> mime_parameters m ''boundary'' = None"
  then show "isl (FormDataParser_new parseMIMEType ''multipart/form-data'')"
    by (auto simp: FormDataParser_new_def split: option.splits)
next
  assume "parseMIMEType ''multipart/form-data; boundary=X''
          = Some \<lparr>mime_type = ''multipart'', mime_subtype = ''form-data'',
                  mime_parameters = [''boundary'' \<mapsto> ''X'']\<rparr>"
  then show "FormDataParser_new parseMIMEType ''multipart/form-data; boundary=X'' = Inr parser_X"
    by (simp add: FormDataParser_new_def startsWith_def parser_X_def Buffer_from_dashes_X)
qed

theorem constructor_fails_iff_witness:
  "isl (FormDataParser_new (\<lambda>h. None) ''text/plain'')
   \<and> isl (FormDataParser_new
        (\<lambda>h. Some \<lparr>mime_type = ''multipart'', mime_subtype = ''form-data'',
                    mime_parameters = Map.empty\<rparr>) ''multipart/form-data'')
   \<and> FormDataParser_new
        (\<lambda>h. Some \<lparr>mime_type = ''multipart'', mime_subtype = ''form-data'',
                    mime_parameters = [''boundary'' \<mapsto> ''X'']\<rparr>) ''multipart/form-data; boundary=X''
       = Inr parser_X
   \<and> \<not> isl (FormDataParser_new
        (\<lambda>h. Some \<lparr>mime_type = ''multipart'', mime_subtype = ''form-data'',
                    mime_parameters = [''boundary'' \<mapsto> ''X'']\<rparr>) ''multipart/form-data; boundary=X'')"
proof -
  let ?none = "\<lambda>h :: string. None :: MIMEType option"
  let ?bare = "\<lambda>h :: string. Some \<lparr>mime_type = ''multipart'', mime_subtype = ''form-data'',
                    mime_parameters = Map.empty\<rparr>"
  let ?full = "\<lambda>h :: string. Some \<lparr>mime_type = ''multipart'', mime_subtype = ''form-data'',
                    mime_parameters = [''boundary'' \<mapsto> ''X'']\<rparr>"
  have s: "startsWith ''multipart/form-data; boundary=X'' ''multipart/form-data''"
    by (simp add: startsWith_def)
  from constructor_fails_iff [of ?none "''text/plain''"]
    constructor_fails_iff [of ?bare "''multipart/form-data''"]
    constructor_fails_iff [of ?full "''multipart/form-data; boundary=X''"] s
  show ?thesis by simp
qed

text \<open>
  C8 as stated fails. The header \<open>Multipart/Form-Data; boundary=X\<close> parses, has the
  essence multipart/form-data and has a boundary parameter, and yet construction throws:
  the header does not start with the lower-case text that the first test looks for. That
  test does not ask the MIME parser, so the header is refused whatever the parser answers.
\<close>

theorem constructor_refuses_capitalised_essence:
  "parseMIMEType_sample ''Multipart/Form-Data; boundary=X''
     = Some \<lparr>mime_type = ''multipart'', mime_subtype = ''form-data'',
             mime_parameters = [''boundary'' \<mapsto> ''X'']\<rparr>
   \<and> isl (FormDataParser_new parseMIMEType_sample ''Multipart/Form-Data; boundary=X'')
   \<and> FormDataParser_new parseMIMEType_sample ''Multipart/Form-Data; boundary=X''
     = Inl (TypeError ''Expected multipart/form-data header'')"
proof -
  have "toLowerCase ''Multipart/Form-Data'' = ''multipart/form-data''" by code_simp
  then show ?thesis
    by (simp add: parseMIMEType_sample_def FormDataParser_new_def startsWith_def)
qed

lemma constructor_prefix_test_is_literal:
  "isl (FormDataParser_new parseMIMEType ''Multipart/Form-Data; boundary=X'')"
  by (simp add: FormDataParser_new_def startsWith_def)

end
